theory Spec2Isabelle
  imports Main "HOL-Library.AList"
begin

section \<open>Strings and POSIX paths\<close>

text \<open>
  The server builds every filesystem path with Node's \<^verbatim>\<open>path\<close> module. The model
  follows \<^verbatim>\<open>path.posix\<close>: the separator is \<^verbatim>\<open>/\<close>, a backslash is an ordinary
  character of a name. Strings are \<^typ>\<open>string\<close>, one \<^typ>\<open>char\<close> per code unit.
\<close>

text \<open>
  JavaScript's \<^verbatim>\<open>s.split(c)\<close> for a one-character separator; the result is never
  empty. \<open>cur\<close> holds the characters of the piece being read, last one first.
\<close>

fun split_from :: "char \<Rightarrow> string \<Rightarrow> string \<Rightarrow> string list" where
  "split_from c cur [] = [rev cur]"
| "split_from c cur (x # xs) =
     (if x = c then rev cur # split_from c [] xs else split_from c (x # cur) xs)"

definition split_on :: "char \<Rightarrow> string \<Rightarrow> string list" where
  "split_on c s = split_from c [] s"

text \<open>\<^verbatim>\<open>segs.join('/')\<close>.\<close>

fun join_with :: "char \<Rightarrow> string list \<Rightarrow> string" where
  "join_with c [] = []"
| "join_with c [s] = s"
| "join_with c (s # t # ss) = s @ c # join_with c (t # ss)"

text \<open>
  \<^verbatim>\<open>normalizeString(path, allowAboveRoot)\<close> of Node's path module, on the segments
  of the path. \<open>acc\<close> is the result built so far, last segment first. An empty segment
  and \<^verbatim>\<open>.\<close> are dropped; \<^verbatim>\<open>..\<close> removes the last kept segment unless there is none
  or it is \<^verbatim>\<open>..\<close> itself, in which case it is kept when \<open>allowAboveRoot\<close> holds and
  dropped otherwise.
\<close>

fun normalizeSegs :: "bool \<Rightarrow> string list \<Rightarrow> string list \<Rightarrow> string list" where
  "normalizeSegs up acc [] = rev acc"
| "normalizeSegs up acc (s # ss) =
     (if s = [] \<or> s = ''.'' then normalizeSegs up acc ss
      else if s = ''..'' then
        (case acc of
           t # ts \<Rightarrow>
             if t \<noteq> ''..'' then normalizeSegs up ts ss
             else if up then normalizeSegs up (''..'' # acc) ss
             else normalizeSegs up acc ss
         | [] \<Rightarrow>
             if up then normalizeSegs up [''..''] ss
             else normalizeSegs up [] ss)
      else normalizeSegs up (s # acc) ss)"

definition normalizeString :: "string \<Rightarrow> bool \<Rightarrow> string" where
  "normalizeString p up = join_with CHR ''/'' (normalizeSegs up [] (split_on CHR ''/'' p))"

text \<open>\<^verbatim>\<open>path.normalize(p)\<close>.\<close>

definition normalize :: "string \<Rightarrow> string" where
  "normalize p =
     (if p = [] then ''.''
      else
        let isAbsolute = (hd p = CHR ''/'');
            trailingSeparator = (last p = CHR ''/'');
            q = normalizeString p (\<not> isAbsolute)
        in if q = [] then (if isAbsolute then ''/'' else if trailingSeparator then ''./'' else ''.'')
           else
             let q' = (if trailingSeparator then q @ ''/'' else q)
             in if isAbsolute then CHR ''/'' # q' else q')"

text \<open>\<^verbatim>\<open>path.join(a, b)\<close>: the non-empty arguments joined by \<^verbatim>\<open>/\<close>, then normalized.\<close>

definition path_join :: "string \<Rightarrow> string \<Rightarrow> string" where
  "path_join a b =
     (if a = [] \<and> b = [] then ''.''
      else if a = [] then normalize b
      else if b = [] then normalize a
      else normalize (a @ CHR ''/'' # b))"

text \<open>
  \<^verbatim>\<open>path.basename(p)\<close>: trailing separators are ignored, the result is what follows
  the last remaining separator.
\<close>

definition basename :: "string \<Rightarrow> string" where
  "basename p =
     rev (takeWhile (\<lambda>c. c \<noteq> CHR ''/'') (dropWhile (\<lambda>c. c = CHR ''/'') (rev p)))"

text \<open>\<^verbatim>\<open>s.startsWith(t)\<close>.\<close>

fun startsWith :: "string \<Rightarrow> string \<Rightarrow> bool" where
  "startsWith s [] = True"
| "startsWith [] (y # ys) = False"
| "startsWith (x # xs) (y # ys) = (x = y \<and> startsWith xs ys)"

text \<open>\<^verbatim>\<open>s.replace(/^([/\\])+/, '')\<close>: the leading slashes and backslashes removed.\<close>

definition stripLeadingSeps :: "string \<Rightarrow> string" where
  "stripLeadingSeps s = dropWhile (\<lambda>c. c = CHR ''/'' \<or> c = CHR 0x5C) s"

section \<open>safeJoin\<close>

datatype error = InvalidPath

text \<open>
  \<^verbatim>\<open>
  function safeJoin(base, target) {
    const normalized = path.normalize(target).replace(/^([/\\])+/, '');
    const full = path.join(base, normalized);
    if (!full.startsWith(base)) throw new Error('Invalid path');
    return full;
  }
  \<close>
\<close>

definition safeJoin :: "string \<Rightarrow> string \<Rightarrow> error + string" where
  "safeJoin base target =
     (let normalized = stripLeadingSeps (normalize target);
          full = path_join base normalized
      in if \<not> startsWith full base then Inl InvalidPath else Inr full)"

section \<open>The filesystem\<close>

text \<open>
  The filesystem is a tree. A directory lists its entries in the order \<^verbatim>\<open>readdir\<close>
  reports them. A regular file holds bytes; \<open>Archive es\<close> is the regular file that the
  archiver has written completely and closed for a directory with entries \<open>es\<close> (its
  byte encoding is the archiver library's business). Symbolic links and permissions are
  not modelled.
\<close>

datatype node =
    File "nat list"
  | Archive "(string \<times> node) list"
  | Dir "(string \<times> node) list"

fun is_dir :: "node \<Rightarrow> bool" where
  "is_dir (Dir es) = True"
| "is_dir n = False"

text \<open>The names a path string walks through, from the root of the filesystem.\<close>

definition path_segs :: "string \<Rightarrow> string list" where
  "path_segs p = filter (\<lambda>s. s \<noteq> []) (split_on CHR ''/'' p)"

fun lookup :: "string list \<Rightarrow> node \<Rightarrow> node option" where
  "lookup [] n = Some n"
| "lookup (s # ss) n =
     (case n of
        Dir es \<Rightarrow> (case map_of es s of Some c \<Rightarrow> lookup ss c | None \<Rightarrow> None)
      | _ \<Rightarrow> None)"

text \<open>
  Writing a regular file \<open>new\<close> at a path. With \<open>mk\<close> the missing parent directories
  are created (\<^verbatim>\<open>fs.outputFile\<close>); without it they must exist
  (\<^verbatim>\<open>fs.createWriteStream\<close>). \<open>None\<close> is the I/O error: a parent that is not a
  directory, a missing parent, or a directory at the target.
\<close>

fun set_node :: "bool \<Rightarrow> string list \<Rightarrow> node \<Rightarrow> node \<Rightarrow> node option" where
  "set_node mk [] new t = None"
| "set_node mk (s # ss) new t =
     (case t of
        Dir es \<Rightarrow>
          (if ss = [] then
             (case map_of es s of
                Some (Dir _) \<Rightarrow> None
              | _ \<Rightarrow> Some (Dir (AList.update s new es)))
           else
             (case map_of es s of
                Some c \<Rightarrow> map_option (\<lambda>c'. Dir (AList.update s c' es)) (set_node mk ss new c)
              | None \<Rightarrow>
                  if mk then map_option (\<lambda>c'. Dir (AList.update s c' es)) (set_node mk ss new (Dir []))
                  else None))
      | _ \<Rightarrow> None)"

text \<open>\<^verbatim>\<open>mkdir -p\<close>: \<open>None\<close> when a component of the path is a regular file.\<close>

fun mkdirs :: "string list \<Rightarrow> node \<Rightarrow> node option" where
  "mkdirs [] t = (if is_dir t then Some t else None)"
| "mkdirs (s # ss) t =
     (case t of
        Dir es \<Rightarrow>
          (case map_of es s of
             Some c \<Rightarrow> map_option (\<lambda>c'. Dir (AList.update s c' es)) (mkdirs ss c)
           | None \<Rightarrow> map_option (\<lambda>c'. Dir (AList.update s c' es)) (mkdirs ss (Dir [])))
      | _ \<Rightarrow> None)"

text \<open>
  \<^verbatim>\<open>rm -rf\<close>: the entry and everything below it disappear; an absent path is left as
  it is. The root of the filesystem itself is never removed.
\<close>

fun remove_at :: "string list \<Rightarrow> node \<Rightarrow> node" where
  "remove_at [] t = t"
| "remove_at (s # ss) t =
     (case t of
        Dir es \<Rightarrow>
          (if ss = [] then Dir (AList.delete s es)
           else
             (case map_of es s of
                Some c \<Rightarrow> Dir (AList.update s (remove_at ss c) es)
              | None \<Rightarrow> t))
      | _ \<Rightarrow> t)"

text \<open>
  The calls that change the filesystem are recorded in the order they are made.
  \<open>EvClose\<close> is the \<^verbatim>\<open>close\<close> event of an archive's output stream,
  \<open>EvStreamError\<close> a failure of that stream and \<open>EvArchiveError\<close> the archiver's
  \<^verbatim>\<open>error\<close> event.
\<close>

datatype event =
    EvEnsureDir string
  | EvOutputFile string
  | EvCreateWriteStream string
  | EvClose string
  | EvStreamError string
  | EvArchiveError string
  | EvRemove string

record world =
  tree :: node
  log :: "event list"

text \<open>
  What can go wrong while an archive is written: the archiver emits \<^verbatim>\<open>error\<close>
  (with a message), or the output stream fails (the disk is full, the file cannot be
  written). Both come with the bytes that had reached the file by then.
\<close>

datatype archive_failure = ArchiverError string "nat list" | StreamFailure "nat list"

text \<open>
  What the environment decides: whether writing the archive at a path fails, and whether
  removing a path fails for a reason that the tree does not show (permissions, a busy
  file, a name that is too long), with the error's message. A failed removal is taken
  to leave the tree as it was.
\<close>

record env =
  archive_fails :: "string \<Rightarrow> archive_failure option"
  remove_error :: "string \<Rightarrow> string option"

definition record_event :: "event \<Rightarrow> world \<Rightarrow> world" where
  "record_event e w = w\<lparr>log := log w @ [e]\<rparr>"

text \<open>\<^verbatim>\<open>fs.stat(p).catch(() => null)\<close> followed by \<^verbatim>\<open>stat && stat.isDirectory()\<close>.\<close>

definition stat_isDirectory :: "world \<Rightarrow> string \<Rightarrow> bool" where
  "stat_isDirectory w p = (case lookup (path_segs p) (tree w) of Some n \<Rightarrow> is_dir n | None \<Rightarrow> False)"

text \<open>\<^verbatim>\<open>fs.pathExists(p)\<close>: true for a file and for a directory.\<close>

definition pathExists :: "world \<Rightarrow> string \<Rightarrow> bool" where
  "pathExists w p = (lookup (path_segs p) (tree w) \<noteq> None)"

text \<open>
  How a path resolves: to an entry, to nothing because a name on the way is missing
  (\<^verbatim>\<open>ENOENT\<close>), or not at all because a name on the way is a regular file
  (\<^verbatim>\<open>ENOTDIR\<close>).
\<close>

datatype resolved = Found node | NoEntry | NotDir

fun resolve :: "string list \<Rightarrow> node \<Rightarrow> resolved" where
  "resolve [] n = Found n"
| "resolve (s # ss) n =
     (case n of
        Dir es \<Rightarrow> (case map_of es s of Some c \<Rightarrow> resolve ss c | None \<Rightarrow> NoEntry)
      | _ \<Rightarrow> NotDir)"

text \<open>
  \<^verbatim>\<open>fs.remove(p)\<close> of fs-extra, which is \<^verbatim>\<open>fs.rm(p, { recursive: true, force: true })\<close>.
  \<^verbatim>\<open>force\<close> forgives \<^verbatim>\<open>ENOENT\<close> only: removing a path that is simply absent
  succeeds, removing a path below a regular file fails with \<^verbatim>\<open>ENOTDIR\<close>, and so
  does any removal that the environment makes fail. The result is the message of the
  error thrown, if any; the message of \<^verbatim>\<open>ENOTDIR\<close> is shortened to the error's code.
\<close>

definition fs_remove :: "env \<Rightarrow> string \<Rightarrow> world \<Rightarrow> string option \<times> world" where
  "fs_remove env p w =
     (let w1 = record_event (EvRemove p) w
      in case remove_error env p of
           Some msg \<Rightarrow> (Some msg, w1)
         | None \<Rightarrow>
             (case resolve (path_segs p) (tree w) of
                NoEntry \<Rightarrow> (None, w1)
              | NotDir \<Rightarrow> (Some ''ENOTDIR'', w1)
              | Found n \<Rightarrow> (None, w1\<lparr>tree := remove_at (path_segs p) (tree w)\<rparr>)))"

text \<open>\<^verbatim>\<open>fs.ensureDir(p)\<close>: \<open>False\<close> when it throws.\<close>

definition fs_ensureDir :: "string \<Rightarrow> world \<Rightarrow> bool \<times> world" where
  "fs_ensureDir p w =
     (let w1 = record_event (EvEnsureDir p) w
      in case mkdirs (path_segs p) (tree w) of
           None \<Rightarrow> (False, w1)
         | Some t \<Rightarrow> (True, w1\<lparr>tree := t\<rparr>))"

text \<open>\<^verbatim>\<open>fs.outputFile(p, buffer)\<close>: \<open>False\<close> when it throws.\<close>

definition fs_outputFile :: "string \<Rightarrow> nat list \<Rightarrow> world \<Rightarrow> bool \<times> world" where
  "fs_outputFile p buf w =
     (let w1 = record_event (EvOutputFile p) w
      in case set_node True (path_segs p) (File buf) (tree w) of
           None \<Rightarrow> (False, w1)
         | Some t \<Rightarrow> (True, w1\<lparr>tree := t\<rparr>))"

section \<open>Creating an archive\<close>

text \<open>
  Both compaction paths run the same promise:
  \<^verbatim>\<open>
  await new Promise((resolve, reject) => {
    const output = fs.createWriteStream(zipPath);
    const archive = archiver('zip', { zlib: { level: 9 } });
    output.on('close', resolve);
    archive.on('error', reject);
    archive.pipe(output);
    archive.directory(folderPath, false);
    archive.finalize();
  });
  \<close>
  It resolves when the output stream emits \<^verbatim>\<open>close\<close> and rejects on the archiver's
  \<^verbatim>\<open>error\<close> event. The output stream has no \<^verbatim>\<open>error\<close> listener: when it fails
  (the file cannot be opened, or a write fails) it is destroyed and still emits
  \<^verbatim>\<open>close\<close>, so the promise resolves as it does after a complete archive. Both
  callers have made sure that \<open>folderPath\<close> is a directory; for anything else the
  archive is taken to be empty.
\<close>

datatype archive_result = Resolved | Rejected string

definition dir_entries :: "world \<Rightarrow> string \<Rightarrow> (string \<times> node) list" where
  "dir_entries w p = (case lookup (path_segs p) (tree w) of Some (Dir es) \<Rightarrow> es | _ \<Rightarrow> [])"

text \<open>The output stream fails and closes, leaving the tree \<open>t\<close>.\<close>

definition stream_failed :: "string \<Rightarrow> node \<Rightarrow> world \<Rightarrow> archive_result \<times> world" where
  "stream_failed zipPath t w1 =
     (Resolved, record_event (EvClose zipPath) (record_event (EvStreamError zipPath) (w1\<lparr>tree := t\<rparr>)))"

definition make_archive :: "env \<Rightarrow> string \<Rightarrow> string \<Rightarrow> world \<Rightarrow> archive_result \<times> world" where
  "make_archive env zipPath folderPath w =
     (let w1 = record_event (EvCreateWriteStream zipPath) w
      in case archive_fails env zipPath of
           Some (ArchiverError msg partial) \<Rightarrow>
             (case set_node False (path_segs zipPath) (File partial) (tree w) of
                None \<Rightarrow> stream_failed zipPath (tree w) w1
              | Some t \<Rightarrow> (Rejected msg, record_event (EvArchiveError zipPath) (w1\<lparr>tree := t\<rparr>)))
         | Some (StreamFailure partial) \<Rightarrow>
             (case set_node False (path_segs zipPath) (File partial) (tree w) of
                None \<Rightarrow> stream_failed zipPath (tree w) w1
              | Some t \<Rightarrow> stream_failed zipPath t w1)
         | None \<Rightarrow>
             (case set_node False (path_segs zipPath) (Archive (dir_entries w folderPath)) (tree w) of
                None \<Rightarrow> stream_failed zipPath (tree w) w1
              | Some t \<Rightarrow> (Resolved, record_event (EvClose zipPath) (w1\<lparr>tree := t\<rparr>))))"

section \<open>compactDirectory and compactAll\<close>

text \<open>
  The objects \<^verbatim>\<open>{ skipped, reason }\<close>, \<^verbatim>\<open>{ removed, zipExisted }\<close>,
  \<^verbatim>\<open>{ compacted }\<close> and \<^verbatim>\<open>{ error, message }\<close> that compactDirectory returns.
\<close>

datatype outcome =
    Skipped string string
  | Removed string bool
  | Compacted string
  | Error string string

fun outcome_name :: "outcome \<Rightarrow> string" where
  "outcome_name (Skipped d r) = d"
| "outcome_name (Removed d z) = d"
| "outcome_name (Compacted d) = d"
| "outcome_name (Error d m) = d"

text \<open>
  How an asynchronous function ends: its promise is fulfilled with a value or is
  rejected.
\<close>

datatype 'a completion = Returns 'a | Throws

text \<open>
  \<^verbatim>\<open>
  async function compactDirectory(dirName) {
    const folderPath = path.join(UPLOADS_DIR, dirName);
    const zipPath = path.join(UPLOADS_DIR, `${dirName}.zip`);
    const stat = await fs.stat(folderPath).catch(() => null);
    if (!stat || !stat.isDirectory()) return { skipped: dirName, reason: 'not-directory' };
    if (await fs.pathExists(zipPath)) {
      try { await fs.remove(folderPath); return { removed: dirName, zipExisted: true }; }
      catch (e) { return { error: dirName, message: e.message }; }
    }
    try {
      await new Promise(...);
      await fs.remove(folderPath);
      return { compacted: dirName };
    } catch (e) { return { error: dirName, message: e.message }; }
  }
  \<close>
  \<open>uploads\<close> is \<^verbatim>\<open>UPLOADS_DIR\<close>, which the source computes from the directory
  the server is installed in.
\<close>

definition compactDirectory :: "env \<Rightarrow> string \<Rightarrow> string \<Rightarrow> world \<Rightarrow> outcome completion \<times> world" where
  "compactDirectory env uploads dirName w =
     (let folderPath = path_join uploads dirName;
          zipPath = path_join uploads (dirName @ ''.zip'')
      in if \<not> stat_isDirectory w folderPath then (Returns (Skipped dirName ''not-directory''), w)
         else if pathExists w zipPath then
           (case fs_remove env folderPath w of
              (None, w1) \<Rightarrow> (Returns (Removed dirName True), w1)
            | (Some msg, w1) \<Rightarrow> (Returns (Error dirName msg), w1))
         else
           (case make_archive env zipPath folderPath w of
              (Rejected msg, w1) \<Rightarrow> (Returns (Error dirName msg), w1)
            | (Resolved, w1) \<Rightarrow>
                (case fs_remove env folderPath w1 of
                   (None, w2) \<Rightarrow> (Returns (Compacted dirName), w2)
                 | (Some msg, w2) \<Rightarrow> (Returns (Error dirName msg), w2))))"

text \<open>
  \<^verbatim>\<open>
  async function compactAll() {
    const entries = await fs.readdir(UPLOADS_DIR, { withFileTypes: true });
    const results = [];
    for (const ent of entries) {
      if (ent.isDirectory()) {
        if (ent.name.startsWith('.')) continue;
        const lockPath = path.join(UPLOADS_DIR, `${ent.name}.uploading`);
        if (await fs.pathExists(lockPath)) continue;
        results.push(await compactDirectory(ent.name));
      }
    }
    return results;
  }
  \<close>
  The loop runs over the entries as \<^verbatim>\<open>readdir\<close> reported them; the lock is looked up
  in the filesystem as it is when the entry's turn comes.
\<close>

fun compactAll_loop ::
  "env \<Rightarrow> string \<Rightarrow> (string \<times> node) list \<Rightarrow> outcome list \<Rightarrow> world \<Rightarrow> outcome list completion \<times> world" where
  "compactAll_loop env uploads [] results w = (Returns results, w)"
| "compactAll_loop env uploads ((name, ent) # entries) results w =
     (if is_dir ent then
        if startsWith name ''.'' then compactAll_loop env uploads entries results w
        else if pathExists w (path_join uploads (name @ ''.uploading''))
        then compactAll_loop env uploads entries results w
        else
          (case compactDirectory env uploads name w of
             (Returns r, w1) \<Rightarrow> compactAll_loop env uploads entries (results @ [r]) w1
           | (Throws, w1) \<Rightarrow> (Throws, w1))
      else compactAll_loop env uploads entries results w)"

definition compactAll :: "env \<Rightarrow> string \<Rightarrow> world \<Rightarrow> outcome list completion \<times> world" where
  "compactAll env uploads w =
     (case lookup (path_segs uploads) (tree w) of
        Some (Dir entries) \<Rightarrow> compactAll_loop env uploads entries [] w
      | _ \<Rightarrow> (Throws, w))"

section \<open>The upload handler\<close>

text \<open>
  \<^verbatim>\<open>req.body.paths\<close> is absent, one string or an array of strings (multer delivers text
  fields as strings). The handler starts with
  \<^verbatim>\<open>let paths = req.body.paths || []; if (!Array.isArray(paths)) paths = [paths];\<close>
  and the empty string is falsy.
\<close>

datatype body_field = Absent | Single string | Many "string list"

definition paths_of_body :: "body_field \<Rightarrow> string list" where
  "paths_of_body b =
     (case b of
        Absent \<Rightarrow> []
      | Single s \<Rightarrow> (if s = [] then [] else [s])
      | Many ps \<Rightarrow> ps)"

text \<open>
  \<^verbatim>\<open>
  function getRootName(paths) {
    if (!paths || paths.length === 0) return null;
    const parts = paths[0].split('/');
    return parts.length > 1 ? parts[0] : null;
  }
  \<close>
\<close>

definition getRootName :: "string list \<Rightarrow> string option" where
  "getRootName paths =
     (case paths of
        [] \<Rightarrow> None
      | p # _ \<Rightarrow>
          (case split_on CHR ''/'' p of
             a # b # _ \<Rightarrow> Some a
           | _ \<Rightarrow> None))"

text \<open>The decimal digits of a number, as a template literal prints \<^verbatim>\<open>Date.now()\<close>.\<close>

fun string_of_nat :: "nat \<Rightarrow> string" where
  "string_of_nat n =
     (if n < 10 then [''0123456789'' ! n]
      else string_of_nat (n div 10) @ [''0123456789'' ! (n mod 10)])"

declare string_of_nat.simps [simp del]

text \<open>
  \<^verbatim>\<open>const hasNested = paths.some(p => typeof p === 'string' && p.includes('/'));\<close>
  \<^verbatim>\<open>const rootFromPaths = getRootName(paths.filter(Boolean));\<close>
  The flat branch is taken when \<^verbatim>\<open>!hasNested && !rootFromPaths\<close>; \<^verbatim>\<open>null\<close> and the
  empty string are falsy.
\<close>

definition hasNested :: "string list \<Rightarrow> bool" where
  "hasNested paths = list_ex (\<lambda>p. CHR ''/'' \<in> set p) paths"

definition rootFromPaths :: "string list \<Rightarrow> string option" where
  "rootFromPaths paths = getRootName (filter (\<lambda>p. p \<noteq> []) paths)"

definition truthy :: "string option \<Rightarrow> bool" where
  "truthy r = (case r of Some s \<Rightarrow> s \<noteq> [] | None \<Rightarrow> False)"

text \<open>\<^verbatim>\<open>const baseName = rootFromPaths || `upload_${Date.now()}`;\<close>\<close>

definition upload_baseName :: "nat \<Rightarrow> string list \<Rightarrow> string" where
  "upload_baseName now paths =
     (case rootFromPaths paths of
        Some r \<Rightarrow> (if r \<noteq> [] then r else ''upload_'' @ string_of_nat now)
      | None \<Rightarrow> ''upload_'' @ string_of_nat now)"

text \<open>
  The flat branch:
  \<^verbatim>\<open>
  for (const f of files) {
    const name = path.basename(f.originalname);
    const destPath = safeJoin(UPLOADS_DIR, name);
    await fs.outputFile(destPath, f.buffer);
  }
  \<close>
  A file is its \<^verbatim>\<open>originalname\<close> and its \<^verbatim>\<open>buffer\<close>. \<open>False\<close> is the exception
  that ends the loop.
\<close>

fun write_flat :: "string \<Rightarrow> (string \<times> nat list) list \<Rightarrow> world \<Rightarrow> bool \<times> world" where
  "write_flat uploads [] w = (True, w)"
| "write_flat uploads ((originalname, buffer) # files) w =
     (case safeJoin uploads (basename originalname) of
        Inl e \<Rightarrow> (False, w)
      | Inr destPath \<Rightarrow>
          (case fs_outputFile destPath buffer w of
             (False, w1) \<Rightarrow> (False, w1)
           | (True, w1) \<Rightarrow> write_flat uploads files w1))"

text \<open>
  The folder branch:
  \<^verbatim>\<open>
  for (let i = 0; i < files.length; i++) {
    const f = files[i];
    let rel = paths[i] || f.originalname;
    if (rootFromPaths && rel.startsWith(rootFromPaths + '/')) {
      rel = rel.substring(rootFromPaths.length + 1);
    }
    const targetPath = safeJoin(baseDir, rel);
    await fs.outputFile(targetPath, f.buffer);
  }
  \<close>
  \<open>paths\<close> is what is left of the array from index \<open>i\<close> on.
\<close>

fun write_entries ::
  "string \<Rightarrow> string option \<Rightarrow> string list \<Rightarrow> (string \<times> nat list) list \<Rightarrow> world \<Rightarrow> bool \<times> world" where
  "write_entries baseDir root paths [] w = (True, w)"
| "write_entries baseDir root paths ((originalname, buffer) # files) w =
     (let rel0 = (case paths of [] \<Rightarrow> originalname | p # _ \<Rightarrow> if p = [] then originalname else p);
          rel = (case root of
                   Some r \<Rightarrow>
                     if r \<noteq> [] \<and> startsWith rel0 (r @ ''/'') then drop (length r + 1) rel0
                     else rel0
                 | None \<Rightarrow> rel0)
      in case safeJoin baseDir rel of
           Inl e \<Rightarrow> (False, w)
         | Inr targetPath \<Rightarrow>
             (case fs_outputFile targetPath buffer w of
                (False, w1) \<Rightarrow> (False, w1)
              | (True, w1) \<Rightarrow> write_entries baseDir root (drop 1 paths) files w1))"

text \<open>
  The responses of \<^verbatim>\<open>POST /upload\<close>: 400 \<^verbatim>\<open>No files uploaded.\<close>, 200 with the
  uploaded names, 200 with the folder's name, 500 \<^verbatim>\<open>Upload failed.\<close>
\<close>

datatype upload_response =
    NoFilesUploaded
  | UploadedFiles "string list"
  | UploadedFolder string
  | UploadFailed

text \<open>
  \<^verbatim>\<open>app.post('/upload', ...)\<close>. \<open>now\<close> is \<^verbatim>\<open>Date.now()\<close>. Every exception inside
  the handler ends in the 500 response; the folder removal at the end is wrapped in its
  own \<^verbatim>\<open>try\<close>, so its failure is only logged.
\<close>

definition upload ::
  "env \<Rightarrow> nat \<Rightarrow> string \<Rightarrow> body_field \<Rightarrow> (string \<times> nat list) list \<Rightarrow> world
   \<Rightarrow> upload_response completion \<times> world" where
  "upload env now uploads body files w =
     (let paths = paths_of_body body
      in if files = [] then (Returns NoFilesUploaded, w)
         else if \<not> hasNested paths \<and> \<not> truthy (rootFromPaths paths) then
           (case write_flat uploads files w of
              (False, w1) \<Rightarrow> (Returns UploadFailed, w1)
            | (True, w1) \<Rightarrow> (Returns (UploadedFiles (map (\<lambda>f. basename (fst f)) files)), w1))
         else
           (let baseName = upload_baseName now paths;
                baseDir = path_join uploads baseName
            in case fs_ensureDir baseDir w of
                 (False, w1) \<Rightarrow> (Returns UploadFailed, w1)
               | (True, w1) \<Rightarrow>
                   (case write_entries baseDir (rootFromPaths paths) paths files w1 of
                      (False, w2) \<Rightarrow> (Returns UploadFailed, w2)
                    | (True, w2) \<Rightarrow>
                        (let zipPath = path_join uploads (baseName @ ''.zip'')
                         in case make_archive env zipPath baseDir w2 of
                              (Rejected msg, w3) \<Rightarrow> (Returns UploadFailed, w3)
                            | (Resolved, w3) \<Rightarrow>
                                (Returns (UploadedFolder baseName),
                                 snd (fs_remove env baseDir w3))))))"

section \<open>Deleting a file\<close>



section \<open>computeFolderSize\<close>

text \<open>
  The running total is a JavaScript number, an IEEE 754 double. It only ever holds a
  whole, non-negative number or \<^verbatim>\<open>Infinity\<close>.
\<close>

datatype jsnum = Finite nat | Infinity

text \<open>The number of binary digits of a number.\<close>

fun binary_digits :: "nat \<Rightarrow> nat" where
  "binary_digits n = (if n = 0 then 0 else Suc (binary_digits (n div 2)))"

declare binary_digits.simps [simp del]

text \<open>
  The double nearest to a whole number: the number itself up to \<open>2^53\<close>; above, the
  nearest multiple of the spacing \<open>u\<close> of the doubles of that magnitude (53 significant
  binary digits), a tie going to the even multiple; \<^verbatim>\<open>Infinity\<close> from \<open>2^1024\<close> on.
\<close>

definition round_double :: "nat \<Rightarrow> jsnum" where
  "round_double n =
     (if n \<le> 2 ^ 53 then Finite n
      else
        let u = 2 ^ (binary_digits n - 53);
            q = n div u;
            r = n mod u;
            m = (if 2 * r < u \<or> (2 * r = u \<and> even q) then q * u else (q + 1) * u)
        in if m < 2 ^ 1024 then Finite m else Infinity)"

text \<open>\<^verbatim>\<open>total += st.size\<close>: the exact sum, rounded to a double.\<close>

fun js_add :: "jsnum \<Rightarrow> nat \<Rightarrow> jsnum" where
  "js_add (Finite a) sz = round_double (a + sz)"
| "js_add Infinity sz = Infinity"

text \<open>\<^verbatim>\<open>total > c\<close>.\<close>

fun exceeds :: "jsnum \<Rightarrow> nat \<Rightarrow> bool" where
  "exceeds (Finite a) c = (c < a)"
| "exceeds Infinity c = True"

text \<open>
  The size computation reads names, kinds and sizes only. An entry is a regular file
  with the size \<^verbatim>\<open>fs.stat\<close> reports, a file whose \<^verbatim>\<open>stat\<close> throws, a directory with
  its entries, a directory whose \<^verbatim>\<open>readdir\<close> throws, or something that is neither a
  file nor a directory.
\<close>

datatype dirent =
    FileEnt nat
  | FileStatFails
  | DirEnt "(string \<times> dirent) list"
  | DirUnreadable
  | OtherEnt

fun is_directory :: "dirent \<Rightarrow> bool" where
  "is_directory (DirEnt es) = True"
| "is_directory DirUnreadable = True"
| "is_directory e = False"

text \<open>
  The \<^verbatim>\<open>for (const it of items)\<close> loop of one directory: a directory is pushed on
  the stack, a file's size is added; an exception from \<^verbatim>\<open>fs.stat\<close> leaves the loop
  (the \<^verbatim>\<open>catch\<close> around it ignores the error). The head of the list is the top of
  the stack.
\<close>

fun scan_items :: "(string \<times> dirent) list \<Rightarrow> dirent list \<Rightarrow> jsnum \<Rightarrow> dirent list \<times> jsnum" where
  "scan_items [] stack tot = (stack, tot)"
| "scan_items ((name, it) # items) stack tot =
     (if is_directory it then scan_items items (it # stack) tot
      else (case it of
              FileEnt sz \<Rightarrow> scan_items items stack (js_add tot sz)
            | FileStatFails \<Rightarrow> (stack, tot)
            | _ \<Rightarrow> scan_items items stack tot))"

text \<open>\<^verbatim>\<open>readdir(current)\<close> and the loop over its result, inside the \<^verbatim>\<open>try\<close>.\<close>

fun visit :: "dirent \<Rightarrow> dirent list \<Rightarrow> jsnum \<Rightarrow> dirent list \<times> jsnum" where
  "visit (DirEnt items) stack tot = scan_items items stack tot"
| "visit e stack tot = (stack, tot)"

text \<open>
  \<^verbatim>\<open>
  async function computeFolderSize(dir) {
    let total = 0;
    const stack = [dir];
    while (stack.length) {
      const current = stack.pop();
      try {
        const items = await fs.readdir(current, { withFileTypes: true });
        for (const it of items) {
          const full = path.join(current, it.name);
          if (it.isDirectory()) stack.push(full); else if (it.isFile()) {
            const st = await fs.stat(full);
            total += st.size;
          }
        }
      } catch (_) { /* ignore */ }
      if (total > 1e9) break; // 1 GB early stop
    }
    return total;
  }
  \<close>
  A path on the stack is represented by the entry it denotes.
\<close>

function computeFolderSize_loop :: "dirent list \<Rightarrow> jsnum \<Rightarrow> jsnum" where
  "computeFolderSize_loop [] tot = tot"
| "computeFolderSize_loop (current # stack) tot =
     (case visit current stack tot of
        (stack', tot') \<Rightarrow>
          if exceeds tot' 1000000000 then tot' else computeFolderSize_loop stack' tot')"
  by pat_completeness auto

text \<open>The loop ends: every turn takes one entry off the stack and pushes only entries below it.\<close>

lemma scan_items_weight:
  "scan_items items stack tot = (stack', tot') \<Longrightarrow>
   (\<Sum>e\<leftarrow>stack'. Suc (size e)) \<le> (\<Sum>e\<leftarrow>stack. Suc (size e)) + size_list (size_prod (\<lambda>_. 0) size) items"
proof (induction items arbitrary: stack tot)
  case Nil
  then show ?case by simp
next
  case (Cons x items)
  obtain name it where x: "x = (name, it)" by (cases x)
  show ?case
  proof (cases it)
    case (FileEnt sz)
    with Cons.prems x have "scan_items items stack (js_add tot sz) = (stack', tot')" by simp
    from Cons.IH[OF this] show ?thesis by simp
  next
    case FileStatFails
    with Cons.prems x show ?thesis by simp
  next
    case (DirEnt es)
    with Cons.prems x have "scan_items items (it # stack) tot = (stack', tot')" by simp
    from Cons.IH[OF this] x show ?thesis by simp
  next
    case DirUnreadable
    with Cons.prems x have "scan_items items (it # stack) tot = (stack', tot')" by simp
    from Cons.IH[OF this] x show ?thesis by simp
  next
    case OtherEnt
    with Cons.prems x have "scan_items items stack tot = (stack', tot')" by simp
    from Cons.IH[OF this] show ?thesis by simp
  qed
qed

lemma visit_weight:
  "visit current stack tot = (stack', tot') \<Longrightarrow>
   (\<Sum>e\<leftarrow>stack'. Suc (size e)) < (\<Sum>e\<leftarrow>current # stack. Suc (size e))"
proof (cases current)
  case (DirEnt items)
  assume "visit current stack tot = (stack', tot')"
  with DirEnt have "scan_items items stack tot = (stack', tot')" by simp
  from scan_items_weight[OF this] DirEnt show ?thesis by simp
qed auto

termination computeFolderSize_loop
proof (relation "measure (\<lambda>(stack, tot). \<Sum>e\<leftarrow>stack. Suc (size e))", goal_cases)
  case 1
  show ?case by simp
next
  case (2 current stack tot stack' tot')
  then have "visit current stack tot = (stack', tot')" by simp
  from visit_weight[OF this] show ?case by simp
qed

definition computeFolderSize :: "dirent \<Rightarrow> jsnum" where
  "computeFolderSize dir = computeFolderSize_loop [dir] (Finite 0)"

text \<open>
  The cumulative size of a tree, the sum of the sizes of the files in it, and the trees
  in which every \<^verbatim>\<open>readdir\<close> and \<^verbatim>\<open>stat\<close> succeeds.
\<close>

fun total_size :: "dirent \<Rightarrow> nat" where
  "total_size (FileEnt n) = n"
| "total_size (DirEnt es) = (\<Sum>e\<leftarrow>es. total_size (snd e))"
| "total_size e = 0"

fun readable :: "dirent \<Rightarrow> bool" where
  "readable (DirEnt es) = list_all (\<lambda>e. readable (snd e)) es"
| "readable FileStatFails = False"
| "readable DirUnreadable = False"
| "readable e = True"

text \<open>
  The size computation as the specification describes it. The directories of a tree in
  the order of the traversal: a directory, then what lies below its entries, the entry
  listed last first. \<open>own_files\<close> is the sum of the sizes of the regular files directly
  in a directory. \<open>sum_until\<close> adds these sums directory by directory and stops after
  the first directory that brings the total above the limit.
\<close>

fun file_size :: "dirent \<Rightarrow> nat" where
  "file_size (FileEnt n) = n"
| "file_size e = 0"

fun own_files :: "dirent \<Rightarrow> nat" where
  "own_files (DirEnt items) = (\<Sum>e\<leftarrow>items. file_size (snd e))"
| "own_files e = 0"

fun visit_order :: "dirent \<Rightarrow> dirent list" where
  "visit_order (DirEnt items) = DirEnt items # concat (map (\<lambda>e. visit_order (snd e)) (rev items))"
| "visit_order DirUnreadable = [DirUnreadable]"
| "visit_order e = []"

fun sum_until :: "nat \<Rightarrow> nat list \<Rightarrow> nat \<Rightarrow> nat" where
  "sum_until limit [] tot = tot"
| "sum_until limit (x # xs) tot =
     (if limit < tot + x then tot + x else sum_until limit xs (tot + x))"

section \<open>Predicates of the claims\<close>

text \<open>
  A name as \<^verbatim>\<open>readdir\<close> reports it: not empty, without a separator, and neither
  \<^verbatim>\<open>.\<close> nor \<^verbatim>\<open>..\<close>.
\<close>

definition entry_name :: "string \<Rightarrow> bool" where
  "entry_name s = (s \<noteq> [] \<and> CHR ''/'' \<notin> set s \<and> s \<noteq> ''.'' \<and> s \<noteq> ''..'')"

text \<open>An absolute path whose segments are such names, as \<^verbatim>\<open>UPLOADS_DIR\<close> is.\<close>

definition abs_dir :: "string \<Rightarrow> bool" where
  "abs_dir p = (p \<noteq> [] \<and> hd p = CHR ''/'' \<and> list_all entry_name (path_segs p))"

text \<open>\<open>p\<close> lies strictly below \<open>root\<close>: its segments extend those of \<open>root\<close>.\<close>

definition strict_descendant :: "string \<Rightarrow> string \<Rightarrow> bool" where
  "strict_descendant root p =
     (length (path_segs root) < length (path_segs p) \<and>
      take (length (path_segs root)) (path_segs p) = path_segs root)"


text \<open>The calls a run has added to the log.\<close>

definition new_events :: "world \<Rightarrow> world \<Rightarrow> event list" where
  "new_events w w' = drop (length (log w)) (log w')"

section \<open>Example inputs\<close>

text \<open>
  A server installed in \<^verbatim>\<open>/srv\<close>, an environment in which nothing fails, one in which
  the archiver emits an error, one in which the disk is full after two bytes of the
  archive, a filesystem with one uploaded folder, and one with one uploaded file.
\<close>

definition uploads0 :: string where
  "uploads0 = ''/srv/uploads''"

definition quiet_env :: env where
  "quiet_env = \<lparr>archive_fails = (\<lambda>p. None), remove_error = (\<lambda>p. None)\<rparr>"

definition failing_env :: env where
  "failing_env =
     \<lparr>archive_fails = (\<lambda>p. Some (ArchiverError ''read error'' [80, 75])),
      remove_error = (\<lambda>p. None)\<rparr>"

definition disk_full_env :: env where
  "disk_full_env = \<lparr>archive_fails = (\<lambda>p. Some (StreamFailure [80, 75])), remove_error = (\<lambda>p. None)\<rparr>"

definition world_docs :: world where
  "world_docs =
     \<lparr>tree = Dir [(''srv'', Dir [(''uploads'', Dir [(''docs'', Dir [(''a.txt'', File [104, 105])])])])],
      log = []\<rparr>"


text \<open>
  A tree of 1,100,000,001 bytes in two directories, and a filesystem with an empty
  uploads directory.
\<close>

definition split_tree :: dirent where
  "split_tree =
     DirEnt [(''a'', DirEnt [(''f'', FileEnt 100000000)]),
             (''b'', DirEnt [(''g'', FileEnt 1000000001)])]"

definition world_empty :: world where
  "world_empty = \<lparr>tree = Dir [(''srv'', Dir [(''uploads'', Dir [])])], log = []\<rparr>"

text \<open>A filesystem with a folder \<^verbatim>\<open>a\<close>, its lock marker, and a folder \<^verbatim>\<open>b\<close>.\<close>

definition world_locked :: world where
  "world_locked =
     \<lparr>tree = Dir [(''srv'', Dir [(''uploads'',
         Dir [(''a'', Dir [(''f'', File [1, 2])]),
              (''a.uploading'', File []),
              (''b'', Dir [(''g'', File [3])])])])],
      log = []\<rparr>"

section \<open>Paths: auxiliary facts\<close>

lemma split_from_no_sep: "c \<notin> set s \<Longrightarrow> split_from c cur s = [rev cur @ s]"
  by (induction s arbitrary: cur) auto

lemma split_from_append:
  "split_from c cur (s @ c # t) = split_from c cur s @ split_from c [] t"
  by (induction s arbitrary: cur) auto

lemma split_on_append: "split_on c (s @ c # t) = split_on c s @ split_on c t"
  by (simp add: split_on_def split_from_append)

lemma split_on_no_sep: "c \<notin> set s \<Longrightarrow> split_on c s = [s]"
  by (simp add: split_on_def split_from_no_sep)

lemma split_on_sep_first: "split_on c (c # t) = [] # split_on c t"
  by (simp add: split_on_def)

lemma split_on_join:
  "xs \<noteq> [] \<Longrightarrow> \<forall>x\<in>set xs. c \<notin> set x \<Longrightarrow> split_on c (join_with c xs) = xs"
proof (induction c xs rule: join_with.induct)
  case (1 c) then show ?case by simp
next
  case (2 c s) then show ?case by (simp add: split_on_no_sep)
next
  case (3 c s t ss)
  then show ?case by (simp add: split_on_append split_on_no_sep)
qed

lemma normalizeSegs_filter:
  "normalizeSegs up acc xs = normalizeSegs up acc (filter (\<lambda>s. s \<noteq> []) xs)"
  by (induction xs arbitrary: acc) (auto split: list.splits)

lemma normalizeSegs_names:
  "list_all entry_name xs \<Longrightarrow> normalizeSegs up acc xs = rev acc @ xs"
  by (induction xs arbitrary: acc) (auto simp: entry_name_def)

lemma join_with_nonempty: "xs \<noteq> [] \<Longrightarrow> last xs \<noteq> [] \<Longrightarrow> join_with c xs \<noteq> []"
  by (induction c xs rule: join_with.induct) auto

lemma entry_name_last: "entry_name d \<Longrightarrow> last d \<noteq> CHR ''/''"
proof
  assume e: "entry_name d" and l: "last d = CHR ''/''"
  from e have "d \<noteq> []" by (simp add: entry_name_def)
  then have "last d \<in> set d" by (rule last_in_set)
  with l e show False by (simp add: entry_name_def)
qed

lemma path_segs_append: "entry_name d \<Longrightarrow> path_segs (p @ CHR ''/'' # d) = path_segs p @ [d]"
  by (simp add: path_segs_def split_on_append split_on_no_sep entry_name_def)

lemma path_segs_abs_join:
  "xs \<noteq> [] \<Longrightarrow> list_all entry_name xs \<Longrightarrow> path_segs (CHR ''/'' # join_with CHR ''/'' xs) = xs"
proof -
  assume ne: "xs \<noteq> []" and nm: "list_all entry_name xs"
  then have "split_on CHR ''/'' (join_with CHR ''/'' xs) = xs"
    by (intro split_on_join) (auto simp: list_all_iff entry_name_def)
  moreover have "filter (\<lambda>s. s \<noteq> []) xs = xs"
    using nm by (auto simp: list_all_iff entry_name_def intro: filter_True)
  ultimately show ?thesis
    by (simp add: path_segs_def split_on_sep_first)
qed

lemma path_join_entry:
  assumes "abs_dir u" "entry_name d"
  shows "path_join u d = CHR ''/'' # join_with CHR ''/'' (path_segs u @ [d])"
proof -
  let ?x = "u @ CHR ''/'' # d"
  have u: "u \<noteq> []" "hd u = CHR ''/''" and nm: "list_all entry_name (path_segs u @ [d])"
    using assms by (auto simp: abs_dir_def)
  have d: "d \<noteq> []" using assms(2) by (simp add: entry_name_def)
  have segs: "normalizeSegs False [] (split_on CHR ''/'' ?x) = path_segs u @ [d]"
    using normalizeSegs_filter[of False "[]" "split_on CHR ''/'' ?x"]
      normalizeSegs_names[OF nm, of False "[]"] path_segs_append[OF assms(2), of u]
    by (simp add: path_segs_def)
  have q: "normalizeString ?x False = join_with CHR ''/'' (path_segs u @ [d])"
    by (simp add: normalizeString_def segs)
  have qne: "join_with CHR ''/'' (path_segs u @ [d]) \<noteq> []"
    by (rule join_with_nonempty) (simp_all add: d)
  have "last ?x = last d" using d by simp
  then have nt: "last ?x \<noteq> CHR ''/''" using entry_name_last[OF assms(2)] by simp
  have "hd ?x = CHR ''/''" using u by (cases u) simp_all
  then have "normalize ?x = CHR ''/'' # join_with CHR ''/'' (path_segs u @ [d])"
    using nt q qne by (simp add: normalize_def Let_def)
  then show ?thesis using u d by (simp add: path_join_def)
qed

lemma path_segs_path_join:
  assumes "abs_dir u" "entry_name d"
  shows "path_segs (path_join u d) = path_segs u @ [d]"
proof -
  have "list_all entry_name (path_segs u @ [d])"
    using assms by (simp add: abs_dir_def)
  then show ?thesis
    using path_segs_abs_join[of "path_segs u @ [d]"] path_join_entry[OF assms] by simp
qed

lemma entry_name_suffix: "entry_name d \<Longrightarrow> x \<noteq> [] \<Longrightarrow> CHR ''/'' \<notin> set x \<Longrightarrow> entry_name (d @ CHR ''.'' # x)"
proof -
  assume d: "entry_name d" and x: "x \<noteq> []" "CHR ''/'' \<notin> set x"
  have len: "3 \<le> length (d @ CHR ''.'' # x)"
    using d x by (cases d; cases x) (simp_all add: entry_name_def)
  have ne1: "d @ CHR ''.'' # x \<noteq> ''.''"
  proof
    assume "d @ CHR ''.'' # x = ''.''"
    then have "length (d @ CHR ''.'' # x) = length ''.''" by (rule arg_cong)
    with len show False by simp
  qed
  have ne2: "d @ CHR ''.'' # x \<noteq> ''..''"
  proof
    assume "d @ CHR ''.'' # x = ''..''"
    then have "length (d @ CHR ''.'' # x) = length ''..''" by (rule arg_cong)
    with len show False by simp
  qed
  show ?thesis using d x ne1 ne2 by (simp add: entry_name_def)
qed

section \<open>The filesystem: auxiliary facts\<close>

lemma lookup_remove_at_same: "p \<noteq> [] \<Longrightarrow> lookup p (remove_at p t) = None"
proof (induction p arbitrary: t)
  case Nil then show ?case by simp
next
  case (Cons s ss)
  show ?case
  proof (cases t)
    case (Dir es)
    show ?thesis
    proof (cases "ss = []")
      case True
      with Dir show ?thesis by (simp add: AList.delete_conv')
    next
      case False
      with Dir Cons.IH[OF False] show ?thesis
        by (simp add: AList.update_conv' split: option.splits)
    qed
  qed simp_all
qed

lemma lookup_remove_at_sibling:
  "m \<noteq> n \<Longrightarrow> lookup (p @ m # r) (remove_at (p @ [n]) t) = lookup (p @ m # r) t"
proof (induction p arbitrary: t)
  case Nil
  then show ?case by (cases t) (simp_all add: AList.delete_conv')
next
  case (Cons s ss)
  then show ?case
    by (cases t) (simp_all add: AList.update_conv' split: option.splits)
qed

lemma lookup_empty_dir: "q \<noteq> [] \<Longrightarrow> lookup q (Dir []) = None"
  by (cases q) simp_all

lemma lookup_set_node_sibling:
  "set_node mk (p @ [n]) new t = Some t' \<Longrightarrow> m \<noteq> n \<Longrightarrow>
   lookup (p @ m # r) t' = lookup (p @ m # r) t"
proof (induction p arbitrary: t t')
  case Nil
  then show ?case
    by (cases t) (auto simp: AList.update_conv' split: option.splits node.splits)
next
  case (Cons s ss)
  then show ?case
    by (cases t) (auto simp: AList.update_conv' lookup_empty_dir split: option.splits node.splits if_splits)
qed

lemma lookup_set_node_same:
  "set_node mk p new t = Some t' \<Longrightarrow> lookup p t' = Some new"
proof (induction p arbitrary: t t')
  case Nil
  then show ?case by simp
next
  case (Cons s ss)
  then show ?case
    by (cases t) (auto simp: AList.update_conv' split: option.splits node.splits if_splits)
qed

lemma set_node_succeeds:
  "lookup (p @ [m]) t = Some x \<Longrightarrow> lookup (p @ [n]) t = None \<Longrightarrow>
   \<exists>t'. set_node mk (p @ [n]) new t = Some t'"
proof (induction p arbitrary: t)
  case Nil
  then show ?case by (cases t) (auto split: option.splits)
next
  case (Cons s ss)
  then show ?case
    by (cases t) (auto split: option.splits)
qed

section \<open>Evaluation and small facts\<close>

lemmas path_eval =
  safeJoin_def normalize_def normalizeString_def path_join_def stripLeadingSeps_def
  split_on_def path_segs_def basename_def

lemmas fs_eval =
  stat_isDirectory_def pathExists_def fs_remove_def fs_ensureDir_def fs_outputFile_def
  make_archive_def stream_failed_def dir_entries_def record_event_def new_events_def Let_def

lemma abs_dir_uploads0: "abs_dir uploads0"
  by (simp add: abs_dir_def uploads0_def entry_name_def path_eval)

lemma lookup_resolve:
  "lookup p t = (case resolve p t of Found n \<Rightarrow> Some n | NoEntry \<Rightarrow> None | NotDir \<Rightarrow> None)"
  by (induction p arbitrary: t) (auto split: node.splits option.splits)

lemma fs_remove_absent:
  "fs_remove env p w = (None, w') \<Longrightarrow> path_segs p \<noteq> [] \<Longrightarrow> lookup (path_segs p) (tree w') = None"
  by (auto simp: fs_remove_def record_event_def Let_def lookup_remove_at_same lookup_resolve[of _ "tree w"]
      split: resolved.splits option.splits)

section \<open>The claims\<close>

subsection \<open>C10: a name that is not a directory is skipped\<close>

text \<open>
  Claim C10. When \<^verbatim>\<open>path.join(UPLOADS_DIR, dirName)\<close> is not an existing directory,
  compactDirectory returns the outcome \<^verbatim>\<open>skipped\<close> with the reason
  \<^verbatim>\<open>not-directory\<close>, which is not an error, and the filesystem and the record of
  calls are what they were: nothing has been modified.
\<close>

theorem compactDirectory_not_directory:
  "\<not> stat_isDirectory w (path_join uploads dirName) \<Longrightarrow>
   compactDirectory env uploads dirName w = (Returns (Skipped dirName ''not-directory''), w)"
  by (simp add: compactDirectory_def)

theorem compactDirectory_not_directory_witness:
  "\<not> stat_isDirectory world_docs (path_join uploads0 ''ghost'') \<and>
   compactDirectory quiet_env uploads0 ''ghost'' world_docs
     = (Returns (Skipped ''ghost'' ''not-directory''), world_docs)"
proof -
  have h: "\<not> stat_isDirectory world_docs (path_join uploads0 ''ghost'')"
    by (simp add: uploads0_def world_docs_def path_eval fs_eval)
  from h compactDirectory_not_directory[OF h] show ?thesis by simp
qed

subsection \<open>C5: compacting the same folder twice\<close>

text \<open>
  Claim C5 as stated fails: after a first call that returns \<^verbatim>\<open>compacted\<close> the
  folder is gone, so the second call returns \<^verbatim>\<open>skipped\<close> with the reason
  \<^verbatim>\<open>not-directory\<close> and not \<^verbatim>\<open>removed\<close>.
\<close>

theorem compactDirectory_twice_counterexample:
  "fst (compactDirectory quiet_env uploads0 ''docs'' world_docs) = Returns (Compacted ''docs'') \<and>
   fst (compactDirectory quiet_env uploads0 ''docs''
          (snd (compactDirectory quiet_env uploads0 ''docs'' world_docs)))
     = Returns (Skipped ''docs'' ''not-directory'')"
  by (simp add: compactDirectory_def uploads0_def world_docs_def quiet_env_def path_eval fs_eval)

text \<open>
  Claim C5, amended. When a call of compactDirectory on a folder returns
  \<^verbatim>\<open>compacted\<close>, a second call on the same name, whatever the environment does
  then, returns \<^verbatim>\<open>skipped\<close> with the reason \<^verbatim>\<open>not-directory\<close> and leaves the
  filesystem and the record of calls as the first call left them: no second archive is
  written and no error is returned.
\<close>

theorem compactDirectory_twice:
  assumes "path_segs (path_join uploads d) \<noteq> []"
    and "compactDirectory env uploads d w = (Returns (Compacted d), w1)"
  shows "compactDirectory env' uploads d w1 = (Returns (Skipped d ''not-directory''), w1)"
proof -
  from assms(2) obtain w0 where "fs_remove env (path_join uploads d) w0 = (None, w1)"
    by (auto simp: compactDirectory_def Let_def split: if_splits prod.splits option.splits archive_result.splits)
  from fs_remove_absent[OF this assms(1)]
  have "\<not> stat_isDirectory w1 (path_join uploads d)"
    by (simp add: stat_isDirectory_def)
  then show ?thesis by (simp add: compactDirectory_def)
qed

theorem compactDirectory_twice_witness:
  "path_segs (path_join uploads0 ''docs'') \<noteq> [] \<and>
   compactDirectory quiet_env uploads0 ''docs'' world_docs
     = (Returns (Compacted ''docs''), snd (compactDirectory quiet_env uploads0 ''docs'' world_docs)) \<and>
   compactDirectory failing_env uploads0 ''docs'' (snd (compactDirectory quiet_env uploads0 ''docs'' world_docs))
     = (Returns (Skipped ''docs'' ''not-directory''), snd (compactDirectory quiet_env uploads0 ''docs'' world_docs))"
proof -
  have h1: "path_segs (path_join uploads0 ''docs'') \<noteq> []"
    by (simp add: uploads0_def path_eval)
  have h2: "compactDirectory quiet_env uploads0 ''docs'' world_docs
     = (Returns (Compacted ''docs''), snd (compactDirectory quiet_env uploads0 ''docs'' world_docs))"
    by (simp add: compactDirectory_def uploads0_def world_docs_def quiet_env_def path_eval fs_eval)
  from h1 h2 compactDirectory_twice[OF h1 h2, of failing_env] show ?thesis by simp
qed

subsection \<open>C7: a failed archive\<close>

text \<open>
  Claim C7 fails on the code. The promise that writes the archive rejects only on the
  archiver's \<^verbatim>\<open>error\<close> event; a failure of the output stream (here: the disk is full
  after two bytes) has no listener, the stream closes, the promise resolves, and
  compactDirectory goes on as after a complete archive: it removes the folder and
  returns \<^verbatim>\<open>compacted\<close>. What is left is the partial file of two bytes.
\<close>

theorem compactDirectory_stream_failure:
  "compactDirectory disk_full_env uploads0 ''docs'' world_docs
   = (Returns (Compacted ''docs''),
      \<lparr>tree = Dir [(''srv'', Dir [(''uploads'', Dir [(''docs.zip'', File [80, 75])])])],
       log = [EvCreateWriteStream ''/srv/uploads/docs.zip'',
              EvStreamError ''/srv/uploads/docs.zip'',
              EvClose ''/srv/uploads/docs.zip'',
              EvRemove ''/srv/uploads/docs'']\<rparr>)"
  by (simp add: compactDirectory_def uploads0_def world_docs_def disk_full_env_def
      path_eval fs_eval)

text \<open>
  The sibling path does what the claim says: when the archiver itself emits
  \<^verbatim>\<open>error\<close>, compactDirectory returns the outcome \<^verbatim>\<open>error\<close> with the folder's name
  and the message, the folder is what it was, the partly written file stays, and no
  removal is called.
\<close>

lemma compactDirectory_archiver_error:
  assumes "abs_dir uploads" and "entry_name d"
    and "stat_isDirectory w (path_join uploads d)"
    and "\<not> pathExists w (path_join uploads (d @ ''.zip''))"
    and "archive_fails env (path_join uploads (d @ ''.zip'')) = Some (ArchiverError msg partial)"
  shows "fst (compactDirectory env uploads d w) = Returns (Error d msg) \<and>
         lookup (path_segs (path_join uploads d)) (tree (snd (compactDirectory env uploads d w)))
           = lookup (path_segs (path_join uploads d)) (tree w) \<and>
         lookup (path_segs (path_join uploads (d @ ''.zip''))) (tree (snd (compactDirectory env uploads d w)))
           = Some (File partial) \<and>
         new_events w (snd (compactDirectory env uploads d w))
           = [EvCreateWriteStream (path_join uploads (d @ ''.zip'')),
              EvArchiveError (path_join uploads (d @ ''.zip''))]"
proof -
  let ?P = "path_segs uploads"
  let ?z = "d @ ''.zip''"
  have zn: "entry_name ?z" using entry_name_suffix[OF assms(2), of "''zip''"] by simp
  have fs: "path_segs (path_join uploads d) = ?P @ [d]"
    by (rule path_segs_path_join[OF assms(1,2)])
  have zs: "path_segs (path_join uploads ?z) = ?P @ [?z]"
    by (rule path_segs_path_join[OF assms(1) zn])
  from assms(3) obtain x where fx: "lookup (?P @ [d]) (tree w) = Some x"
    by (auto simp: stat_isDirectory_def fs split: option.splits)
  from assms(4) have zx: "lookup (?P @ [?z]) (tree w) = None"
    by (simp add: pathExists_def zs)
  from set_node_succeeds[OF fx zx] obtain t' where
    t': "set_node False (?P @ [?z]) (File partial) (tree w) = Some t'" by blast
  have ne: "d \<noteq> ?z" by simp
  have keep: "lookup (?P @ [d]) t' = lookup (?P @ [d]) (tree w)"
    using lookup_set_node_sibling[OF t', of d "[]"] ne by simp
  have new: "lookup (?P @ [?z]) t' = Some (File partial)"
    by (rule lookup_set_node_same[OF t'])
  have run: "compactDirectory env uploads d w =
     (Returns (Error d msg),
      record_event (EvArchiveError (path_join uploads ?z))
        ((record_event (EvCreateWriteStream (path_join uploads ?z)) w)\<lparr>tree := t'\<rparr>))"
    using assms(3,4,5) t' by (simp add: compactDirectory_def make_archive_def zs Let_def)
  show ?thesis
    unfolding run by (simp add: fs zs keep new record_event_def new_events_def)
qed

subsection \<open>C9: deleting an absent file\<close>




subsection \<open>C1: safeJoin and the sandbox root\<close>

text \<open>
  Claim C1 fails on the code: the check \<^verbatim>\<open>full.startsWith(base)\<close> compares
  characters, not path segments, so a sibling of the root whose name begins with the
  root's name passes it. For the root \<^verbatim>\<open>/srv/uploads\<close> and the relative path
  \<^verbatim>\<open>../uploads_evil/x\<close>, safeJoin returns \<^verbatim>\<open>/srv/uploads_evil/x\<close>, which is not
  below the root.
\<close>

theorem safeJoin_sibling_escape:
  "safeJoin ''/srv/uploads'' ''../uploads_evil/x'' = Inr ''/srv/uploads_evil/x'' \<and>
   \<not> strict_descendant ''/srv/uploads'' ''/srv/uploads_evil/x''"
  by (simp add: strict_descendant_def path_eval)

text \<open>
  What the check does guarantee is a prefix of characters. The same check lets the root
  itself through, for the relative path \<^verbatim>\<open>.\<close>; a path that climbs above the root
  without such a prefix is rejected.
\<close>

lemma safeJoin_prefix: "safeJoin base target = Inr full \<Longrightarrow> startsWith full base"
  by (simp add: safeJoin_def Let_def split: if_splits)

lemma safeJoin_root_itself:
  "safeJoin ''/srv/uploads'' ''.'' = Inr ''/srv/uploads'' \<and>
   \<not> strict_descendant ''/srv/uploads'' ''/srv/uploads''"
  by (simp add: strict_descendant_def path_eval)

lemma safeJoin_rejects_climb: "safeJoin ''/srv/uploads'' ''../../etc/passwd'' = Inl InvalidPath"
  by (simp add: path_eval)

subsection \<open>C4: the ceiling of the size computation\<close>

text \<open>
  Claim C4 as stated fails: the ceiling in the code is \<^verbatim>\<open>1e9\<close> bytes, not 1 GiB
  (\<open>2^30\<close> bytes). On a tree of 1,100,000,001 bytes, more than 1 GiB, the computation
  stops after the directory that brings the total to 1,000,000,001 and returns that
  value, which is below 1 GiB.
\<close>

theorem computeFolderSize_GiB_counterexample:
  "readable split_tree \<and> is_directory split_tree \<and>
   2 ^ 30 < total_size split_tree \<and>
   computeFolderSize split_tree = Finite 1000000001 \<and> (1000000001::nat) < 2 ^ 30"
  by (simp add: computeFolderSize_def split_tree_def round_double_def)

text \<open>Up to \<open>2^53\<close> the additions are exact.\<close>

lemma round_double_exact: "n \<le> 2 ^ 53 \<Longrightarrow> round_double n = Finite n"
  by (simp add: round_double_def)

lemma scan_items_exact:
  "list_all (\<lambda>e. readable (snd e)) items \<Longrightarrow>
   tot + (\<Sum>e\<leftarrow>items. file_size (snd e)) \<le> 2 ^ 53 \<Longrightarrow>
   scan_items items stack (Finite tot) =
     (rev (map snd (filter (\<lambda>e. is_directory (snd e)) items)) @ stack,
      Finite (tot + (\<Sum>e\<leftarrow>items. file_size (snd e))))"
proof (induction items arbitrary: stack tot)
  case Nil
  then show ?case by simp
next
  case (Cons x items)
  obtain name it where x: "x = (name, it)" by (cases x)
  from Cons.prems(1) x have r: "readable it" and rs: "list_all (\<lambda>e. readable (snd e)) items"
    by simp_all
  show ?case
  proof (cases it)
    case (FileEnt sz)
    from Cons.prems(2) x FileEnt
    have b: "(tot + sz) + (\<Sum>e\<leftarrow>items. file_size (snd e)) \<le> 2 ^ 53" by (simp add: add.assoc)
    then have "tot + sz \<le> 2 ^ 53" by simp
    then have "js_add (Finite tot) sz = Finite (tot + sz)" by (simp add: round_double_exact)
    with Cons.IH[OF rs b, of stack] x FileEnt show ?thesis by (simp add: add.assoc)
  next
    case FileStatFails
    with r show ?thesis by simp
  next
    case (DirEnt es)
    from Cons.prems(2) x DirEnt
    have b: "tot + (\<Sum>e\<leftarrow>items. file_size (snd e)) \<le> 2 ^ 53" by simp
    from Cons.IH[OF rs b, of "it # stack"] x DirEnt show ?thesis by simp
  next
    case DirUnreadable
    with r show ?thesis by simp
  next
    case OtherEnt
    from Cons.prems(2) x OtherEnt
    have b: "tot + (\<Sum>e\<leftarrow>items. file_size (snd e)) \<le> 2 ^ 53" by simp
    from Cons.IH[OF rs b, of stack] x OtherEnt show ?thesis by simp
  qed
qed

text \<open>
  The loop's stack and the order of the traversal: listing a directory pushes its
  subdirectories, the one listed last on top.
\<close>

lemma visit_order_not_directory: "\<not> is_directory e \<Longrightarrow> visit_order e = []"
  by (cases e) simp_all

lemma visit_order_subdirectories:
  "concat (map (\<lambda>e. visit_order (snd e)) (rev items)) =
   concat (map visit_order (rev (map snd (filter (\<lambda>e. is_directory (snd e)) items))))"
  by (induction items) (simp_all add: visit_order_not_directory)

lemma sum_concat_rev:
  "(\<Sum>x\<leftarrow>concat (map g (rev es)). (h x :: nat)) = (\<Sum>e\<leftarrow>es. \<Sum>x\<leftarrow>g e. h x)"
  by (induction es) simp_all

lemma sum_visit_order:
  "(\<Sum>x\<leftarrow>visit_order d. own_files x) + file_size d = total_size d"
proof (induction d rule: total_size.induct)
  case (2 es)
  have "(\<Sum>x\<leftarrow>concat (map (\<lambda>e. visit_order (snd e)) (rev es)). own_files x)
        = (\<Sum>e\<leftarrow>es. \<Sum>x\<leftarrow>visit_order (snd e). own_files x)"
    by (rule sum_concat_rev)
  then have "(\<Sum>x\<leftarrow>visit_order (DirEnt es). own_files x) + file_size (DirEnt es)
        = (\<Sum>e\<leftarrow>es. (\<Sum>x\<leftarrow>visit_order (snd e). own_files x) + file_size (snd e))"
    by (simp add: sum_list_addf)
  also have "\<dots> = (\<Sum>e\<leftarrow>es. total_size (snd e))"
    using "2.IH" by (intro arg_cong[where f = sum_list] map_cong) simp_all
  finally show ?case by simp
qed simp_all

lemma total_size_directory:
  "total_size (DirEnt items) =
   (\<Sum>e\<leftarrow>items. file_size (snd e)) +
   (\<Sum>d\<leftarrow>rev (map snd (filter (\<lambda>e. is_directory (snd e)) items)). total_size d)"
proof (induction items)
  case Nil
  then show ?case by simp
next
  case (Cons x items)
  then show ?case by (cases "snd x") simp_all
qed

lemma computeFolderSize_loop_refines:
  "list_all (\<lambda>e. readable e \<and> is_directory e) stack \<Longrightarrow>
   n + (\<Sum>d\<leftarrow>stack. total_size d) \<le> 2 ^ 53 \<Longrightarrow> t = Finite n \<Longrightarrow>
   computeFolderSize_loop stack t
     = Finite (sum_until 1000000000 (map own_files (concat (map visit_order stack))) n)"
proof (induction stack t arbitrary: n rule: computeFolderSize_loop.induct)
  case (1 tot)
  then show ?case by simp
next
  case (2 current stack tot)
  from "2.prems"(1) obtain items where cur: "current = DirEnt items"
    by (cases current) simp_all
  let ?subs = "rev (map snd (filter (\<lambda>e. is_directory (snd e)) items))"
  let ?own = "\<Sum>e\<leftarrow>items. file_size (snd e)"
  from "2.prems"(1) cur have ri: "list_all (\<lambda>e. readable (snd e)) items"
    and rs: "list_all (\<lambda>e. readable e \<and> is_directory e) stack" by simp_all
  have ts: "total_size current = ?own + (\<Sum>d\<leftarrow>?subs. total_size d)"
    unfolding cur by (rule total_size_directory)
  from "2.prems"(2) ts have b1: "n + ?own \<le> 2 ^ 53" by simp
  have v: "visit current stack tot = (?subs @ stack, Finite (n + ?own))"
    using scan_items_exact[OF ri b1, of stack] cur "2.prems"(3) by simp
  have order: "map own_files (concat (map visit_order (current # stack)))
      = ?own # map own_files (concat (map visit_order (?subs @ stack)))"
    unfolding cur by (simp add: visit_order_subdirectories)
  show ?case
  proof (cases "1000000000 < n + ?own")
    case True
    with v order show ?thesis by simp
  next
    case False
    have r': "list_all (\<lambda>e. readable e \<and> is_directory e) (?subs @ stack)"
      using ri rs by (auto simp: list_all_iff)
    have b2: "(n + ?own) + (\<Sum>d\<leftarrow>?subs @ stack. total_size d) \<le> 2 ^ 53"
      using "2.prems"(2) ts by simp
    have ne: "\<not> exceeds (Finite (n + ?own)) 1000000000" using False by simp
    from "2.IH"[OF v[symmetric] ne r' b2 refl] v order False show ?thesis by simp
  qed
qed

lemma sum_until_bounds:
  "sum_until limit xs tot \<le> tot + sum_list xs \<and>
   (limit < tot + sum_list xs \<longrightarrow> limit < sum_until limit xs tot)"
proof (induction xs arbitrary: tot)
  case Nil
  then show ?case by simp
next
  case (Cons a xs)
  from Cons[of "tot + a"] show ?case by (simp add: add.assoc)
qed

text \<open>
  Claim C4, amended. The ceiling is 1,000,000,000 bytes (\<^verbatim>\<open>1e9\<close>), not 1 GiB. On a
  directory tree in which every \<^verbatim>\<open>readdir\<close> and \<^verbatim>\<open>stat\<close> succeeds and whose
  cumulative size is at most \<open>2^53\<close> bytes (so that the additions are exact),
  computeFolderSize visits the directories depth-first, the subdirectory listed last
  first, adds the sizes of the files directly in each directory, compares the running
  total with the ceiling each time a directory has been listed completely, and returns
  the total as soon as it exceeds the ceiling, without visiting the directories that
  remain. The value returned is never above the cumulative size, and it is above the
  ceiling when the cumulative size is.
\<close>

theorem computeFolderSize_ceiling:
  assumes "readable dir" and "is_directory dir" and "total_size dir \<le> 2 ^ 53"
  shows "computeFolderSize dir = Finite (sum_until 1000000000 (map own_files (visit_order dir)) 0) \<and>
         sum_until 1000000000 (map own_files (visit_order dir)) 0 \<le> total_size dir \<and>
         (1000000000 < total_size dir \<longrightarrow>
            1000000000 < sum_until 1000000000 (map own_files (visit_order dir)) 0)"
proof -
  from assms(2) have fz: "file_size dir = 0" by (cases dir) simp_all
  with sum_visit_order[of dir] have s: "(\<Sum>x\<leftarrow>visit_order dir. own_files x) = total_size dir"
    by simp
  have "computeFolderSize dir = Finite (sum_until 1000000000 (map own_files (visit_order dir)) 0)"
    using computeFolderSize_loop_refines[of "[dir]" 0 "Finite 0"] assms
    by (simp add: computeFolderSize_def)
  with sum_until_bounds[of 1000000000 "map own_files (visit_order dir)" 0] s
  show ?thesis by simp
qed

theorem computeFolderSize_ceiling_witness:
  "readable split_tree \<and> is_directory split_tree \<and> total_size split_tree \<le> 2 ^ 53 \<and>
   1000000000 < total_size split_tree \<and>
   map own_files (visit_order split_tree) = [0, 1000000001, 100000000] \<and>
   sum_until 1000000000 [0, 1000000001, 100000000] 0 = 1000000001 \<and>
   computeFolderSize split_tree = Finite 1000000001"
proof -
  have h1: "readable split_tree" by (simp add: split_tree_def)
  have h2: "is_directory split_tree" by (simp add: split_tree_def)
  have h3: "total_size split_tree \<le> 2 ^ 53" by (simp add: split_tree_def)
  have h4: "1000000000 < total_size split_tree" by (simp add: split_tree_def)
  have o: "map own_files (visit_order split_tree) = [0, 1000000001, 100000000]"
    by (simp add: split_tree_def)
  have u: "sum_until 1000000000 [0, 1000000001, 100000000] 0 = 1000000001" by simp
  from computeFolderSize_ceiling[OF h1 h2 h3] h1 h2 h3 h4 o u show ?thesis by simp
qed

text \<open>Above \<open>2^53\<close> the total is rounded: \<open>2^53 + 3\<close> becomes \<open>2^53 + 4\<close>.\<close>

lemma round_double_ties_to_even: "round_double (2 ^ 53 + 3) = Finite (2 ^ 53 + 4)"
  by (simp add: round_double_def binary_digits.simps Let_def)

subsection \<open>C8: the name of the destination folder\<close>

text \<open>
  The first piece of \<^verbatim>\<open>p.split('/')\<close> is what precedes the first separator, and
  there is a second piece exactly when \<open>p\<close> contains a separator.
\<close>

lemma split_from_nonempty: "split_from c cur s \<noteq> []"
  by (induction s arbitrary: cur) auto

lemma split_from_sep:
  "c \<in> set s \<Longrightarrow>
   split_from c cur s =
     (rev cur @ takeWhile (\<lambda>x. x \<noteq> c) s) # split_from c [] (tl (dropWhile (\<lambda>x. x \<noteq> c) s))"
  by (induction s arbitrary: cur) auto

lemma getRootName_Cons:
  "getRootName (p # ps) =
     (if CHR ''/'' \<in> set p then Some (takeWhile (\<lambda>x. x \<noteq> CHR ''/'') p) else None)"
proof (cases "CHR ''/'' \<in> set p")
  case True
  obtain b bs where "split_from CHR ''/'' [] (tl (dropWhile (\<lambda>x. x \<noteq> CHR ''/'') p)) = b # bs"
    using split_from_nonempty by (meson list.exhaust)
  with True show ?thesis
    by (simp add: getRootName_def split_on_def split_from_sep)
next
  case False
  then show ?thesis by (simp add: getRootName_def split_on_no_sep)
qed

text \<open>
  Claim C8, amended. The name of the destination folder is determined by the first
  non-empty relative path alone: it is what precedes that path's first \<^verbatim>\<open>/\<close> when
  the path contains a \<^verbatim>\<open>/\<close> and does not begin with it, and the generated
  \<^verbatim>\<open>upload_<timestamp>\<close> otherwise, also when every path is empty. The paths after
  the first non-empty one do not occur in the result.
\<close>

theorem upload_baseName_first_nonempty:
  "upload_baseName now paths =
     (case filter (\<lambda>p. p \<noteq> []) paths of
        [] \<Rightarrow> ''upload_'' @ string_of_nat now
      | p # rest \<Rightarrow>
          if CHR ''/'' \<in> set p \<and> takeWhile (\<lambda>c. c \<noteq> CHR ''/'') p \<noteq> []
          then takeWhile (\<lambda>c. c \<noteq> CHR ''/'') p
          else ''upload_'' @ string_of_nat now)"
proof (cases "filter (\<lambda>p. p \<noteq> []) paths")
  case Nil
  then show ?thesis by (simp add: upload_baseName_def rootFromPaths_def getRootName_def)
next
  case (Cons p rest)
  then show ?thesis by (simp add: upload_baseName_def rootFromPaths_def getRootName_Cons)
qed

text \<open>
  Claim C8 as stated fails in two ways. With an empty first path the name comes from
  the second path: the batches \<^verbatim>\<open>["", "docs/a.txt"]\<close> and \<^verbatim>\<open>["", "other/a.txt"]\<close>
  have the same first path and get the names \<^verbatim>\<open>docs\<close> and \<^verbatim>\<open>other\<close>. And a first
  path that begins with the separator, \<^verbatim>\<open>/a.txt\<close>, contains a separator but gets the
  generated name, since its first segment is empty.
\<close>

theorem upload_baseName_counterexample:
  "hasNested ['''', ''docs/a.txt''] \<and>
   upload_baseName 1700000000000 ['''', ''docs/a.txt''] = ''docs'' \<and>
   upload_baseName 1700000000000 ['''', ''other/a.txt''] = ''other'' \<and>
   hasNested [''/a.txt''] \<and>
   upload_baseName 1700000000000 [''/a.txt''] = ''upload_1700000000000''"
  by (simp add: hasNested_def upload_baseName_def rootFromPaths_def getRootName_def split_on_def
      string_of_nat.simps)

subsection \<open>C2: the lock marker during a folder upload\<close>

text \<open>
  Claim C2 fails on the code: the upload handler never creates or removes
  \<^verbatim>\<open><folder>.uploading\<close>. For the batch \<^verbatim>\<open>docs/a.txt\<close>, \<^verbatim>\<open>docs/sub/b.txt\<close> into an
  empty uploads directory, the calls that change the filesystem are: ensure the folder,
  write the two files, write and close the archive, remove the folder. None of them
  touches \<^verbatim>\<open>/srv/uploads/docs.uploading\<close>, so the marker that compactAll looks for
  does not exist at any point of the upload.
\<close>

theorem upload_never_creates_lock:
  "upload quiet_env 1700000000000 uploads0 (Many [''docs/a.txt'', ''docs/sub/b.txt''])
     [(''a.txt'', [104]), (''b.txt'', [119])] world_empty
   = (Returns (UploadedFolder ''docs''),
      \<lparr>tree = Dir [(''srv'', Dir [(''uploads'',
           Dir [(''docs.zip'', Archive [(''a.txt'', File [104]), (''sub'', Dir [(''b.txt'', File [119])])])])])],
       log = [EvEnsureDir ''/srv/uploads/docs'',
              EvOutputFile ''/srv/uploads/docs/a.txt'',
              EvOutputFile ''/srv/uploads/docs/sub/b.txt'',
              EvCreateWriteStream ''/srv/uploads/docs.zip'',
              EvClose ''/srv/uploads/docs.zip'',
              EvRemove ''/srv/uploads/docs'']\<rparr>)"
  by (simp add: upload_def paths_of_body_def hasNested_def upload_baseName_def rootFromPaths_def
      getRootName_def truthy_def uploads0_def quiet_env_def world_empty_def path_eval fs_eval)

subsection \<open>C6: the archive is closed before the folder is removed\<close>














subsection \<open>C3: a locked folder during a sweep\<close>

text \<open>
  Claim C3 as stated fails: for a folder whose lock marker exists, compactAll executes
  \<^verbatim>\<open>continue\<close> and records nothing. With the folders \<^verbatim>\<open>a\<close> (locked) and \<^verbatim>\<open>b\<close>,
  the sweep returns the single outcome \<^verbatim>\<open>compacted\<close> for \<^verbatim>\<open>b\<close>; no
  \<^verbatim>\<open>skipped\<close> outcome for \<^verbatim>\<open>a\<close> is in the result.
\<close>
theorem compactAll_locked_counterexample:
  "stat_isDirectory world_locked (path_join uploads0 ''a'') \<and>
   pathExists world_locked (path_join uploads0 (''a'' @ ''.uploading'')) \<and>
   fst (compactAll quiet_env uploads0 world_locked) = Returns [Compacted ''b'']"
  by (simp add: compactAll_def compactDirectory_def uploads0_def world_locked_def quiet_env_def
      path_eval fs_eval)

text \<open>
  A call on one name of the uploads directory leaves every other entry of that
  directory as it was.
\<close>

lemma fs_remove_frame:
  "path_segs p = P @ [n] \<Longrightarrow> m \<noteq> n \<Longrightarrow>
   lookup (P @ [m]) (tree (snd (fs_remove env p w))) = lookup (P @ [m]) (tree w)"
  using lookup_remove_at_sibling[of m n P "[]"]
  by (simp add: fs_remove_def record_event_def Let_def split: option.splits resolved.splits)

lemma make_archive_frame:
  "path_segs zp = P @ [z] \<Longrightarrow> m \<noteq> z \<Longrightarrow>
   lookup (P @ [m]) (tree (snd (make_archive env zp fp w))) = lookup (P @ [m]) (tree w)"
  using lookup_set_node_sibling[of False P z _ "tree w" _ m "[]"]
  by (auto simp: make_archive_def stream_failed_def record_event_def Let_def
      split: option.splits prod.splits archive_failure.splits)

lemma compactDirectory_frame:
  assumes "abs_dir uploads" and "entry_name n"
    and "lookup (path_segs uploads @ [m]) (tree w) = Some x"
    and "m \<noteq> n \<or> \<not> is_dir x"
  shows "lookup (path_segs uploads @ [m]) (tree (snd (compactDirectory env uploads n w))) = Some x"
proof -
  let ?P = "path_segs uploads"
  let ?f = "path_join uploads n"
  let ?z = "path_join uploads (n @ ''.zip'')"
  have zn: "entry_name (n @ ''.zip'')" using entry_name_suffix[OF assms(2), of "''zip''"] by simp
  have fs: "path_segs ?f = ?P @ [n]" by (rule path_segs_path_join[OF assms(1,2)])
  have zs: "path_segs ?z = ?P @ [n @ ''.zip'']" by (rule path_segs_path_join[OF assms(1) zn])
  show ?thesis
  proof (cases "stat_isDirectory w ?f")
    case False
    then show ?thesis using assms(3) by (simp add: compactDirectory_def)
  next
    case dir: True
    have mn: "m \<noteq> n"
    proof
      assume "m = n"
      with dir assms(3) fs have "is_dir x" by (simp add: stat_isDirectory_def)
      with assms(4) \<open>m = n\<close> show False by simp
    qed
    show ?thesis
    proof (cases "pathExists w ?z")
      case True
      have "snd (compactDirectory env uploads n w) = snd (fs_remove env ?f w)"
        using dir True by (simp add: compactDirectory_def split: prod.splits option.splits)
      then show ?thesis using fs_remove_frame[OF fs mn, of env w] assms(3) by simp
    next
      case False
      then have mz: "m \<noteq> n @ ''.zip''"
        using assms(3) by (auto simp: pathExists_def zs)
      obtain res w1 where ma: "make_archive env ?z ?f w = (res, w1)"
        by (cases "make_archive env ?z ?f w")
      from make_archive_frame[OF zs mz, of env ?f w] ma assms(3)
      have k1: "lookup (?P @ [m]) (tree w1) = Some x" by simp
      have "tree (snd (compactDirectory env uploads n w)) = tree w1 \<or>
            snd (compactDirectory env uploads n w) = snd (fs_remove env ?f w1)"
        using dir False ma
        by (cases res) (auto simp: compactDirectory_def split: prod.splits option.splits)
      then show ?thesis using fs_remove_frame[OF fs mn, of env w1] k1 by auto
    qed
  qed
qed

lemma compactDirectory_outcome_name:
  "fst (compactDirectory env uploads n w) = Returns r \<Longrightarrow> outcome_name r = n"
  by (auto simp: compactDirectory_def Let_def split: if_splits prod.splits option.splits archive_result.splits)

lemma compactAll_loop_frame:
  assumes "abs_dir uploads" and "entry_name a"
    and "list_all (\<lambda>e. entry_name (fst e)) entries"
    and "lookup (path_segs uploads @ [a]) (tree w) = Some folder"
    and "lookup (path_segs uploads @ [a @ ''.uploading'']) (tree w) = Some marker"
    and "\<not> is_dir marker"
    and "\<forall>r\<in>set results. outcome_name r \<noteq> a"
  shows "lookup (path_segs uploads @ [a]) (tree (snd (compactAll_loop env uploads entries results w))) = Some folder \<and>
         lookup (path_segs uploads @ [a @ ''.uploading''])
           (tree (snd (compactAll_loop env uploads entries results w))) = Some marker \<and>
         (\<forall>rs. fst (compactAll_loop env uploads entries results w) = Returns rs \<longrightarrow>
               (\<forall>r\<in>set rs. outcome_name r \<noteq> a))"
  using assms(3,4,5,7)
proof (induction entries arbitrary: results w)
  case Nil
  then show ?case by simp
next
  case (Cons e entries)
  obtain name ent where e: "e = (name, ent)" by (cases e)
  from Cons.prems(1) e have nm: "entry_name name" and rest: "list_all (\<lambda>e. entry_name (fst e)) entries"
    by simp_all
  have an: "entry_name (a @ ''.uploading'')"
    using entry_name_suffix[OF assms(2), of "''uploading''"] by simp
  have ls: "path_segs (path_join uploads (a @ ''.uploading'')) = path_segs uploads @ [a @ ''.uploading'']"
    by (rule path_segs_path_join[OF assms(1) an])
  note skip = Cons.IH[OF rest Cons.prems(2,3,4)]
  show ?case
  proof (cases "is_dir ent \<and> \<not> startsWith name ''.'' \<and>
                \<not> pathExists w (path_join uploads (name @ ''.uploading''))")
    case False
    then have "compactAll_loop env uploads (e # entries) results w
               = compactAll_loop env uploads entries results w"
      using e by auto
    with skip show ?thesis by simp
  next
    case True
    have na: "name \<noteq> a"
    proof
      assume "name = a"
      with True have "\<not> pathExists w (path_join uploads (a @ ''.uploading''))" by simp
      with Cons.prems(3) ls show False by (simp add: pathExists_def)
    qed
    obtain c w1 where cd: "compactDirectory env uploads name w = (c, w1)"
      by (cases "compactDirectory env uploads name w")
    from compactDirectory_frame[OF assms(1) nm Cons.prems(2), of env] na cd
    have k1: "lookup (path_segs uploads @ [a]) (tree w1) = Some folder" by simp
    from compactDirectory_frame[OF assms(1) nm Cons.prems(3), of env] assms(6) cd
    have k2: "lookup (path_segs uploads @ [a @ ''.uploading'']) (tree w1) = Some marker" by simp
    show ?thesis
    proof (cases c)
      case (Returns r)
      with compactDirectory_outcome_name[of env uploads name w r] cd na
      have "outcome_name r \<noteq> a" by simp
      with Cons.prems(4) have "\<forall>r\<in>set (results @ [r]). outcome_name r \<noteq> a" by simp
      from Cons.IH[OF rest k1 k2 this] True e cd Returns show ?thesis by simp
    next
      case Throws
      with True e cd k1 k2 show ?thesis by simp
    qed
  qed
qed

text \<open>
  Claim C3, amended. For every folder of the uploads directory whose lock marker
  \<^verbatim>\<open><name>.uploading\<close> exists as a regular file when the sweep starts, compactAll
  records no outcome at all for that folder, and the folder with its contents, and the
  marker, are the same after the sweep as before, however the sweep ends.
\<close>

theorem compactAll_locked_folder:
  assumes "abs_dir uploads" and "entry_name a"
    and "lookup (path_segs uploads) (tree w) = Some (Dir entries)"
    and "list_all (\<lambda>e. entry_name (fst e)) entries"
    and "lookup (path_segs (path_join uploads a)) (tree w) = Some (Dir contents)"
    and "lookup (path_segs (path_join uploads (a @ ''.uploading''))) (tree w) = Some (File bytes)"
  shows "lookup (path_segs (path_join uploads a)) (tree (snd (compactAll env uploads w))) = Some (Dir contents) \<and>
         lookup (path_segs (path_join uploads (a @ ''.uploading''))) (tree (snd (compactAll env uploads w)))
           = Some (File bytes) \<and>
         (\<forall>rs. fst (compactAll env uploads w) = Returns rs \<longrightarrow> (\<forall>r\<in>set rs. outcome_name r \<noteq> a))"
proof -
  have an: "entry_name (a @ ''.uploading'')"
    using entry_name_suffix[OF assms(2), of "''uploading''"] by simp
  have fs: "path_segs (path_join uploads a) = path_segs uploads @ [a]"
    by (rule path_segs_path_join[OF assms(1,2)])
  have ls: "path_segs (path_join uploads (a @ ''.uploading'')) = path_segs uploads @ [a @ ''.uploading'']"
    by (rule path_segs_path_join[OF assms(1) an])
  have run: "compactAll env uploads w = compactAll_loop env uploads entries [] w"
    using assms(3) by (simp add: compactAll_def)
  from compactAll_loop_frame[OF assms(1,2,4), of w "Dir contents" "File bytes" "[]" env] assms(5,6)
  show ?thesis by (simp add: fs ls run)
qed

theorem compactAll_locked_folder_witness:
  "abs_dir uploads0 \<and> entry_name ''a'' \<and>
   lookup (path_segs (path_join uploads0 ''a'')) (tree world_locked) = Some (Dir [(''f'', File [1, 2])]) \<and>
   lookup (path_segs (path_join uploads0 (''a'' @ ''.uploading''))) (tree world_locked) = Some (File []) \<and>
   lookup (path_segs (path_join uploads0 ''a'')) (tree (snd (compactAll quiet_env uploads0 world_locked)))
     = Some (Dir [(''f'', File [1, 2])]) \<and>
   fst (compactAll quiet_env uploads0 world_locked) = Returns [Compacted ''b''] \<and>
   outcome_name (Compacted ''b'') \<noteq> ''a''"
proof -
  have h2: "entry_name ''a''" by (simp add: entry_name_def)
  have h3: "lookup (path_segs uploads0) (tree world_locked)
     = Some (Dir [(''a'', Dir [(''f'', File [1, 2])]), (''a.uploading'', File []), (''b'', Dir [(''g'', File [3])])])"
    by (simp add: uploads0_def world_locked_def path_eval)
  have h4: "list_all (\<lambda>e. entry_name (fst e))
     [(''a'', Dir [(''f'', File [1, 2])]), (''a.uploading'', File []), (''b'', Dir [(''g'', File [3])])]"
    by (simp add: entry_name_def)
  have h5: "lookup (path_segs (path_join uploads0 ''a'')) (tree world_locked) = Some (Dir [(''f'', File [1, 2])])"
    by (simp add: uploads0_def world_locked_def path_eval)
  have h6: "lookup (path_segs (path_join uploads0 (''a'' @ ''.uploading''))) (tree world_locked) = Some (File [])"
    by (simp add: uploads0_def world_locked_def path_eval)
  have r: "fst (compactAll quiet_env uploads0 world_locked) = Returns [Compacted ''b'']"
    by (simp add: compactAll_def compactDirectory_def uploads0_def world_locked_def quiet_env_def
        path_eval fs_eval)
  from compactAll_locked_folder[OF abs_dir_uploads0 h2 h3 h4 h5 h6, of quiet_env] abs_dir_uploads0 h2 h5 h6 r
  show ?thesis by simp
qed

end
